theory Spec2Isabelle
  imports Main "HOL-Library.Word"
begin

section \<open>ParameterVector: a resizable vector of parameters with derived UUIDs\<close>

text \<open>
  A shallow embedding of \<^verbatim>\<open>qiskit/circuit/parametervector.py\<close>. Python integers are
  \<open>int\<close>, a \<^verbatim>\<open>uuid.UUID\<close> is a 128-bit word, a raised exception is the left summand
  of the result, and a method that mutates \<^verbatim>\<open>self\<close> returns the updated vector.
\<close>

subsection \<open>Python values\<close>

datatype py_error = ValueError | IndexError

type_synonym UUID = "128 word"

text \<open>What \<^verbatim>\<open>self\<close> denotes when a vector hands itself to its elements.\<close>

type_synonym obj_ref = nat

text \<open>
  \<^verbatim>\<open>uuid.UUID(int=n)\<close> of the standard library raises \<^verbatim>\<open>ValueError\<close>
  (``int is out of range (need a 128-bit value)'') unless \<open>0 \<le> n < 2 ^ 128\<close>;
  \<^verbatim>\<open>u.int\<close> is \<open>uint u\<close>.
\<close>

definition UUID_of_int :: "int \<Rightarrow> py_error + UUID" where
  "UUID_of_int n = (if 0 \<le> n \<and> n < 2 ^ 128 then Inr (word_of_int n) else Inl ValueError)"

text \<open>\<^verbatim>\<open>range(a, b)\<close>: the integers from \<open>a\<close> up to \<open>b - 1\<close>, none when \<open>b \<le> a\<close>.\<close>

definition py_range :: "int \<Rightarrow> int \<Rightarrow> int list" where
  "py_range a b = [a..b - 1]"

text \<open>
  \<^verbatim>\<open>xs[key]\<close> on a list with an integer key: a key in \<open>[-len, 0)\<close> counts from the
  end, a key outside \<open>[-len, len)\<close> raises \<^verbatim>\<open>IndexError\<close>.
\<close>

definition list_getitem :: "'a list \<Rightarrow> int \<Rightarrow> py_error + 'a" where
  "list_getitem xs key =
     (if 0 \<le> key \<and> key < int (length xs) then Inr (xs ! nat key)
      else if - int (length xs) \<le> key \<and> key < 0 then Inr (xs ! nat (int (length xs) + key))
      else Inl IndexError)"

text \<open>
  \<^verbatim>\<open>del xs[k:]\<close>: the slice starts at \<open>k\<close> clipped to \<open>len\<close>, and for a negative
  \<open>k\<close> at \<open>len + k\<close> clipped to \<open>0\<close>; everything from there on is removed.
\<close>

definition del_from :: "'a list \<Rightarrow> int \<Rightarrow> 'a list" where
  "del_from xs k =
     take (nat (if k < 0 then max (int (length xs) + k) 0 else min k (int (length xs)))) xs"

subsection \<open>Elements\<close>

text \<open>
  Modelled from the spec: the class \<^verbatim>\<open>ParameterVectorElement\<close> is imported from the
  compiled module \<^verbatim>\<open>qiskit._accelerate.circuit\<close>, whose source is not part of the
  Python file. The spec describes it as an opaque value constructible from
  \<open>(vector_ref, index, identity)\<close>, with the owner, the index at creation time and the
  128-bit identity as its content, and \<open>(owner-link, index, identity)\<close> as its
  serialized state.
\<close>

record ParameterVectorElement =
  vector :: obj_ref
  index :: int
  uuid :: UUID

type_synonym element_state = "obj_ref \<times> int \<times> UUID"

definition Element :: "obj_ref \<Rightarrow> int \<Rightarrow> UUID \<Rightarrow> ParameterVectorElement" where
  "Element v i u = \<lparr>vector = v, index = i, uuid = u\<rparr>"

definition element_getstate :: "ParameterVectorElement \<Rightarrow> element_state" where
  "element_getstate p = (vector p, index p, uuid p)"

definition element_of_state :: "element_state \<Rightarrow> ParameterVectorElement" where
  "element_of_state p = (case p of (v, i, u) \<Rightarrow> Element v i u)"

subsection \<open>The vector\<close>

text \<open>
  The slots \<^verbatim>\<open>_name\<close>, \<^verbatim>\<open>_params\<close> and \<^verbatim>\<open>_root_uuid\<close>, and the identity of
  the object itself.
\<close>

record ParameterVector =
  self_ref :: obj_ref
  pv_name :: string
  pv_params :: "ParameterVectorElement list"
  pv_root_uuid :: UUID

type_synonym vector_state = "string \<times> element_state list \<times> UUID"

text \<open>
  \<^verbatim>\<open>ParameterVectorElement(self, i, UUID(int=root_uuid_int + i))\<close>: the sum is a sum of
  Python integers, and the \<^verbatim>\<open>UUID\<close> constructor rejects it when it is no 128-bit value.
\<close>

definition new_element :: "obj_ref \<Rightarrow> int \<Rightarrow> int \<Rightarrow> py_error + ParameterVectorElement" where
  "new_element self root_uuid_int i =
     (case UUID_of_int (root_uuid_int + i) of
        Inl e \<Rightarrow> Inl e
      | Inr u \<Rightarrow> Inr (Element self i u))"

text \<open>The list comprehension over a range: elements are built in order, the first exception ends it.\<close>

fun new_elements :: "obj_ref \<Rightarrow> int \<Rightarrow> int list \<Rightarrow> py_error + ParameterVectorElement list" where
  "new_elements self root_uuid_int [] = Inr []"
| "new_elements self root_uuid_int (i # is) =
     (case new_element self root_uuid_int i of
        Inl e \<Rightarrow> Inl e
      | Inr p \<Rightarrow>
          (case new_elements self root_uuid_int is of
             Inl e \<Rightarrow> Inl e
           | Inr ps \<Rightarrow> Inr (p # ps)))"

text \<open>
  \<^verbatim>\<open>__init__(self, name, length=0)\<close>. The root is the value \<^verbatim>\<open>uuid4()\<close> returned,
  the only random draw of the class, taken here as an argument.
\<close>

definition init :: "obj_ref \<Rightarrow> UUID \<Rightarrow> string \<Rightarrow> int \<Rightarrow> py_error + ParameterVector" where
  "init self root nm n =
     (case new_elements self (uint root) (py_range 0 n) of
        Inl e \<Rightarrow> Inl e
      | Inr ps \<Rightarrow> Inr \<lparr>self_ref = self, pv_name = nm, pv_params = ps, pv_root_uuid = root\<rparr>)"

definition name :: "ParameterVector \<Rightarrow> string" where
  "name S = pv_name S"

definition params :: "ParameterVector \<Rightarrow> ParameterVectorElement list" where
  "params S = pv_params S"

definition getitem :: "ParameterVector \<Rightarrow> int \<Rightarrow> py_error + ParameterVectorElement" where
  "getitem S key = list_getitem (params S) key"

definition len :: "ParameterVector \<Rightarrow> int" where
  "len S = int (length (pv_params S))"

definition getnewargs :: "ParameterVector \<Rightarrow> string \<times> int" where
  "getnewargs S = (pv_name S, int (length (pv_params S)))"

definition getstate :: "ParameterVector \<Rightarrow> vector_state" where
  "getstate S = (pv_name S, map element_getstate (pv_params S), pv_root_uuid S)"

definition setstate :: "ParameterVector \<Rightarrow> vector_state \<Rightarrow> ParameterVector" where
  "setstate S state =
     (case state of (nm, ps, root) \<Rightarrow>
        S\<lparr>pv_name := nm, pv_root_uuid := root, pv_params := map element_of_state ps\<rparr>)"

definition resize :: "ParameterVector \<Rightarrow> int \<Rightarrow> py_error + ParameterVector" where
  "resize S n =
     (if n > int (length (pv_params S)) then
        (case new_elements (self_ref S) (uint (pv_root_uuid S))
                (py_range (int (length (pv_params S))) n) of
           Inl e \<Rightarrow> Inl e
         | Inr ps \<Rightarrow> Inr (S\<lparr>pv_params := pv_params S @ ps\<rparr>))
      else Inr (S\<lparr>pv_params := del_from (pv_params S) n\<rparr>))"

text \<open>
  A sequence of \<^verbatim>\<open>resize\<close> calls on one vector, in order; an exception ends the
  sequence, the vector being as the last completed call left it.
\<close>

fun resize_calls :: "ParameterVector \<Rightarrow> int list \<Rightarrow> py_error + ParameterVector" where
  "resize_calls S [] = Inr S"
| "resize_calls S (n # ns) =
     (case resize S n of
        Inl e \<Rightarrow> Inl e
      | Inr S' \<Rightarrow> resize_calls S' ns)"

subsection \<open>Derived identities\<close>

text \<open>
  The elements a vector owning \<open>self\<close> with root \<open>root\<close> holds at the indices \<open>js\<close>, and
  the invariant of the class: the list of elements is that list for the indices below its
  length, and every identity in it is the integer \<open>root + index\<close>, a 128-bit value.
\<close>

definition elements_of :: "obj_ref \<Rightarrow> UUID \<Rightarrow> int list \<Rightarrow> ParameterVectorElement list" where
  "elements_of self root js = map (\<lambda>i. Element self i (root + word_of_int i)) js"

definition derived :: "ParameterVector \<Rightarrow> bool" where
  "derived S \<longleftrightarrow>
     pv_params S = elements_of (self_ref S) (pv_root_uuid S) [0..int (length (pv_params S)) - 1] \<and>
     uint (pv_root_uuid S) + int (length (pv_params S)) \<le> 2 ^ 128"

subsection \<open>Example vectors\<close>

text \<open>
  A root of the shape \<^verbatim>\<open>uuid4()\<close> returns (version 4, variant 1),
  \<^verbatim>\<open>00000000-0000-4000-8000-000000000005\<close>; the vector \<^verbatim>\<open>ParameterVector("theta", 3)\<close>
  with that root, and what is left of it at the lengths 2 and 1.
\<close>

abbreviation root4 :: UUID where
  "root4 \<equiv> 0x00000000000040008000000000000005"

abbreviation theta3 :: ParameterVector where
  "theta3 \<equiv> \<lparr>self_ref = 0, pv_name = ''theta'',
      pv_params = [\<lparr>vector = 0, index = 0, uuid = 0x00000000000040008000000000000005\<rparr>,
                   \<lparr>vector = 0, index = 1, uuid = 0x00000000000040008000000000000006\<rparr>,
                   \<lparr>vector = 0, index = 2, uuid = 0x00000000000040008000000000000007\<rparr>],
      pv_root_uuid = root4\<rparr>"

abbreviation theta2 :: ParameterVector where
  "theta2 \<equiv> \<lparr>self_ref = 0, pv_name = ''theta'',
      pv_params = [\<lparr>vector = 0, index = 0, uuid = 0x00000000000040008000000000000005\<rparr>,
                   \<lparr>vector = 0, index = 1, uuid = 0x00000000000040008000000000000006\<rparr>],
      pv_root_uuid = root4\<rparr>"

abbreviation theta1 :: ParameterVector where
  "theta1 \<equiv> \<lparr>self_ref = 0, pv_name = ''theta'',
      pv_params = [\<lparr>vector = 0, index = 0, uuid = 0x00000000000040008000000000000005\<rparr>],
      pv_root_uuid = root4\<rparr>"

section \<open>Properties\<close>

subsection \<open>Building elements and the invariant\<close>

lemma new_elements_eq:
  "new_elements self r js =
     (if \<forall>i\<in>set js. 0 \<le> r + i \<and> r + i < 2 ^ 128
      then Inr (map (\<lambda>i. Element self i (word_of_int (r + i))) js)
      else Inl ValueError)"
  by (induction js) (auto simp: new_element_def UUID_of_int_def)

lemma new_elements_range:
  "0 \<le> a \<Longrightarrow> new_elements self (uint root) (py_range a b) =
     (if b \<le> a \<or> uint root + b \<le> 2 ^ 128
      then Inr (elements_of self root [a..b - 1])
      else Inl ValueError)"
proof -
  assume a: "0 \<le> a"
  have "(\<forall>i\<in>set [a..b - 1]. 0 \<le> uint root + i \<and> uint root + i < 2 ^ 128)
        \<longleftrightarrow> (b \<le> a \<or> uint root + b \<le> 2 ^ 128)"
  proof
    assume h: "\<forall>i\<in>set [a..b - 1]. 0 \<le> uint root + i \<and> uint root + i < 2 ^ 128"
    show "b \<le> a \<or> uint root + b \<le> 2 ^ 128"
    proof (cases "b \<le> a")
      case False
      then have "b - 1 \<in> set [a..b - 1]" by simp
      with h have "uint root + (b - 1) < 2 ^ 128" by blast
      then show ?thesis by simp
    qed simp
  next
    assume h: "b \<le> a \<or> uint root + b \<le> 2 ^ 128"
    show "\<forall>i\<in>set [a..b - 1]. 0 \<le> uint root + i \<and> uint root + i < 2 ^ 128"
    proof
      fix i assume "i \<in> set [a..b - 1]"
      then have i: "a \<le> i" "i < b" by auto
      with h have "uint root + b \<le> 2 ^ 128" by auto
      with i a show "0 \<le> uint root + i \<and> uint root + i < 2 ^ 128" by simp
    qed
  qed
  then show ?thesis
    by (simp add: new_elements_eq py_range_def elements_of_def)
qed

lemma length_elements_of [simp]: "length (elements_of self root js) = length js"
  by (simp add: elements_of_def)

lemma elements_of_append:
  "elements_of self root (js @ ks) = elements_of self root js @ elements_of self root ks"
  by (simp add: elements_of_def)

lemma uint_UUID_bound: "uint (r :: UUID) < 2 ^ 128"
  and uint_UUID_le: "uint (r :: UUID) \<le> 2 ^ 128"
  using uint_bounded [of r] by simp_all

lemma take_upto: "0 \<le> j \<Longrightarrow> take (nat j) [0..n] = [0..min (j - 1) n]"
proof (cases "j - 1 \<le> n")
  case True
  assume j: "0 \<le> j"
  show ?thesis
  proof (cases "j = 0")
    case True
    then show ?thesis by simp
  next
    case False
    with j True have "[0..n] = [0..j - 1] @ [j..n]"
      using upto_split2 [of 0 "j - 1" n] by simp
    moreover have "length [0..j - 1] = nat j" using j by simp
    ultimately show ?thesis using True by (simp add: min_def)
  qed
next
  case False
  assume "0 \<le> j"
  with False show ?thesis by (simp add: min_def)
qed

lemma init_result:
  "init self root nm n =
     (if n \<le> 0 \<or> uint root + n \<le> 2 ^ 128
      then Inr \<lparr>self_ref = self, pv_name = nm, pv_params = elements_of self root [0..n - 1], pv_root_uuid = root\<rparr>
      else Inl ValueError)"
  by (simp add: init_def new_elements_range)

lemma init_derived:
  assumes "init self root nm n = Inr S"
  shows "derived S" and "self_ref S = self" and "pv_root_uuid S = root" and "pv_name S = nm"
    and "int (length (pv_params S)) = max n 0"
  using assms uint_UUID_le [of root] by (auto simp: init_result derived_def split: if_splits)

lemma resize_result:
  "resize S n =
     (if int (length (pv_params S)) < n then
        (if uint (pv_root_uuid S) + n \<le> 2 ^ 128
         then Inr (S\<lparr>pv_params := pv_params S @
                 elements_of (self_ref S) (pv_root_uuid S) [int (length (pv_params S))..n - 1]\<rparr>)
         else Inl ValueError)
      else Inr (S\<lparr>pv_params := del_from (pv_params S) n\<rparr>))"
  by (simp add: resize_def new_elements_range)

lemma del_from_take:
  "n \<le> int (length xs) \<Longrightarrow> del_from xs n = take (nat (if n < 0 then max (int (length xs) + n) 0 else n)) xs"
  by (simp add: del_from_def min_def)

lemma take_elements_of_upto:
  "0 \<le> j \<Longrightarrow> j \<le> n \<Longrightarrow> take (nat j) (elements_of self root [0..n - 1]) = elements_of self root [0..j - 1]"
  by (simp add: elements_of_def take_map take_upto min_def)

lemma derived_take:
  assumes "derived S" "0 \<le> j" "j \<le> int (length (pv_params S))"
  shows "derived (S\<lparr>pv_params := take (nat j) (pv_params S)\<rparr>)"
proof -
  let ?n = "int (length (pv_params S))"
  have "take (nat j) (pv_params S) = take (nat j) (elements_of (self_ref S) (pv_root_uuid S) [0..?n - 1])"
    using assms(1) by (simp add: derived_def)
  also have "\<dots> = elements_of (self_ref S) (pv_root_uuid S) [0..j - 1]"
    using assms(2,3) by (rule take_elements_of_upto)
  finally have "take (nat j) (pv_params S) = elements_of (self_ref S) (pv_root_uuid S) [0..j - 1]" .
  moreover have "int (length (take (nat j) (pv_params S))) = j"
    using assms(2,3) by simp
  moreover have "uint (pv_root_uuid S) + j \<le> 2 ^ 128"
    using assms(1,3) by (simp add: derived_def)
  ultimately show ?thesis by (simp add: derived_def)
qed

lemma derived_grow:
  assumes "derived S" "int (length (pv_params S)) \<le> n" "uint (pv_root_uuid S) + n \<le> 2 ^ 128"
  shows "derived (S\<lparr>pv_params := pv_params S @
           elements_of (self_ref S) (pv_root_uuid S) [int (length (pv_params S))..n - 1]\<rparr>)"
proof -
  let ?l = "int (length (pv_params S))"
  have split: "[0..n - 1] = [0..?l - 1] @ [?l..n - 1]"
    using assms(2) upto_split2 [of 0 "?l - 1" "n - 1"] by (cases "?l = 0") auto
  have "pv_params S @ elements_of (self_ref S) (pv_root_uuid S) [?l..n - 1]
        = elements_of (self_ref S) (pv_root_uuid S) [0..n - 1]"
    using assms(1) by (simp add: derived_def split elements_of_append)
  moreover have "int (length (pv_params S @ elements_of (self_ref S) (pv_root_uuid S) [?l..n - 1])) = n"
    using assms(2) by simp
  ultimately show ?thesis using assms(3) by (simp add: derived_def)
qed

lemma resize_derived:
  assumes "derived S" "resize S n = Inr S'"
  shows "derived S'" and "self_ref S' = self_ref S" and "pv_root_uuid S' = pv_root_uuid S"
    and "pv_name S' = pv_name S"
proof -
  show "derived S'"
  proof (cases "int (length (pv_params S)) < n")
    case True
    with assms show ?thesis
      by (auto simp: resize_result derived_grow split: if_splits)
  next
    case False
    then have "del_from (pv_params S) n =
        take (nat (if n < 0 then max (int (length (pv_params S)) + n) 0 else n)) (pv_params S)"
      by (simp add: del_from_take)
    with False assms show ?thesis
      by (auto simp: resize_result intro!: derived_take)
  qed
  show "self_ref S' = self_ref S" "pv_root_uuid S' = pv_root_uuid S" "pv_name S' = pv_name S"
    using assms(2) by (auto simp: resize_result split: if_splits)
qed

lemma resize_calls_derived:
  "derived S \<Longrightarrow> resize_calls S ns = Inr S' \<Longrightarrow>
     derived S' \<and> self_ref S' = self_ref S \<and> pv_root_uuid S' = pv_root_uuid S \<and> pv_name S' = pv_name S"
proof (induction ns arbitrary: S)
  case Nil
  then show ?case by simp
next
  case (Cons n ns)
  then obtain S1 where s1: "resize S n = Inr S1" and rest: "resize_calls S1 ns = Inr S'"
    by (auto split: sum.splits)
  from resize_derived [OF Cons.prems(1) s1] Cons.IH [OF _ rest] show ?case by simp
qed

lemma derived_getitem:
  assumes "derived S" "0 \<le> i" "i < int (length (pv_params S))"
  shows "getitem S i = Inr (Element (self_ref S) i (pv_root_uuid S + word_of_int i))"
    and "uint (pv_root_uuid S + word_of_int i) = uint (pv_root_uuid S) + i"
proof -
  let ?n = "int (length (pv_params S))"
  have "pv_params S ! nat i = elements_of (self_ref S) (pv_root_uuid S) [0..?n - 1] ! nat i"
    using assms(1) by (simp add: derived_def)
  also have "\<dots> = Element (self_ref S) i (pv_root_uuid S + word_of_int i)"
    using assms(2,3) by (simp add: elements_of_def)
  finally show "getitem S i = Inr (Element (self_ref S) i (pv_root_uuid S + word_of_int i))"
    using assms(2,3) by (simp add: getitem_def params_def list_getitem_def)
  have "uint (pv_root_uuid S) + i < 2 ^ 128" "0 \<le> uint (pv_root_uuid S) + i"
    using assms by (simp_all add: derived_def)
  then have "take_bit 128 (uint (pv_root_uuid S) + i) = uint (pv_root_uuid S) + i"
    by (simp add: take_bit_int_eq_self)
  moreover have "pv_root_uuid S + word_of_int i = word_of_int (uint (pv_root_uuid S) + i)"
    by simp
  ultimately show "uint (pv_root_uuid S + word_of_int i) = uint (pv_root_uuid S) + i"
    by (simp only: uint_word_of_int_eq) simp
qed

text \<open>The examples, by evaluation.\<close>

lemmas run_defs = init_def resize_def py_range_def new_element_def UUID_of_int_def Element_def
  del_from_def getitem_def params_def list_getitem_def len_def upto_rec1

lemma init_theta3: "init 0 root4 ''theta'' 3 = Inr theta3"
  by (simp add: run_defs)

lemma resize_theta3_1: "resize theta3 1 = Inr theta1"
  by (simp add: run_defs)

lemma resize_theta1_3: "resize theta1 3 = Inr theta3"
  by (simp add: run_defs)

lemma resize_theta3_m1: "resize theta3 (- 1) = Inr theta2"
  by (simp add: run_defs)

lemma calls_theta3: "resize_calls theta3 [1, 3] = Inr theta3"
  by (simp add: resize_theta3_1 resize_theta1_3)

lemma reached_derived:
  assumes "init self root nm n = Inr S0" and "resize_calls S0 ns = Inr S"
  shows "derived S" and "self_ref S = self" and "pv_root_uuid S = root" and "pv_name S = nm"
  using init_derived [OF assms(1)] resize_calls_derived [OF _ assms(2)] by simp_all

lemma derived_regrow:
  assumes d: "derived S" and j: "0 \<le> j" "j < int (length (pv_params S))"
  shows "resize (S\<lparr>pv_params := take (nat j) (pv_params S)\<rparr>) (int (length (pv_params S))) = Inr S"
proof -
  let ?L = "int (length (pv_params S))"
  let ?T = "S\<lparr>pv_params := take (nat j) (pv_params S)\<rparr>"
  have len: "int (length (pv_params ?T)) = j" using j by simp
  have bound: "uint (pv_root_uuid ?T) + ?L \<le> 2 ^ 128" using d by (simp add: derived_def)
  have split: "[0..?L - 1] = [0..j - 1] @ [j..?L - 1]"
    using j upto_split2 [of 0 "j - 1" "?L - 1"] by (cases "j = 0") auto
  have "take (nat j) (pv_params S) = elements_of (self_ref S) (pv_root_uuid S) [0..j - 1]"
    using d j take_elements_of_upto [of j ?L "self_ref S" "pv_root_uuid S"] by (simp add: derived_def)
  then have "take (nat j) (pv_params S) @ elements_of (self_ref S) (pv_root_uuid S) [j..?L - 1]
      = pv_params S"
    using d by (simp add: derived_def split elements_of_append)
  then show ?thesis
    using j len bound by (simp add: resize_result)
qed

subsection \<open>Determinism of identities\<close>

text \<open>
  C1: in every vector built by the constructor and then resized any number of times,
  the element at each index \<open>i\<close> with \<open>0 \<le> i < len\<close> is returned by \<^verbatim>\<open>S[i]\<close> and its
  identity is the root identity plus \<open>i\<close>, as a 128-bit value and as an integer (the sum
  does not leave the 128-bit range). The resize arguments may be any integers.
\<close>

theorem identity_determinism:
  assumes "init self root nm n = Inr S0" and "resize_calls S0 ns = Inr S"
    and "0 \<le> i" and "i < len S"
  shows "\<exists>e. getitem S i = Inr e \<and> uuid e = pv_root_uuid S + word_of_int i \<and>
           uint (uuid e) = uint (pv_root_uuid S) + i"
proof -
  have d: "derived S" using assms(1,2) by (rule reached_derived)
  have i: "i < int (length (pv_params S))" using assms(4) by (simp add: len_def)
  from derived_getitem [OF d assms(3) i] show ?thesis
    by (simp add: Element_def)
qed

theorem identity_determinism_witness:
  "init 0 root4 ''theta'' 3 = Inr theta3 \<and> resize_calls theta3 [1, 3] = Inr theta3 \<and>
   (0::int) \<le> 2 \<and> 2 < len theta3 \<and>
   (\<exists>e. getitem theta3 2 = Inr e \<and> uuid e = pv_root_uuid theta3 + word_of_int 2 \<and>
        uint (uuid e) = uint (pv_root_uuid theta3) + 2)"
proof -
  have h3: "(0::int) \<le> 2" by simp
  have h4: "2 < len theta3" by (simp add: len_def)
  from identity_determinism [OF init_theta3 calls_theta3 h3 h4]
  show ?thesis by (intro conjI init_theta3 calls_theta3 h3 h4)
qed

text \<open>
  C8: the same vectors are dense: the element at each index \<open>i\<close> with \<open>0 \<le> i < len\<close> carries
  the stored index \<open>i\<close>, and after a further \<^verbatim>\<open>resize(n)\<close> with \<open>0 \<le> n\<close> that
  returned, the length is \<open>n\<close> and every \<open>i\<close> in \<open>[0, n)\<close> holds an element with stored
  index \<open>i\<close>.
\<close>

theorem index_density:
  assumes "init self root nm l = Inr S0" and "resize_calls S0 ns = Inr S"
  shows "(0 \<le> i \<and> i < len S \<longrightarrow> (\<exists>e. getitem S i = Inr e \<and> index e = i)) \<and>
         (0 \<le> n \<and> resize S n = Inr S' \<and> 0 \<le> i \<and> i < n \<longrightarrow>
            len S' = n \<and> (\<exists>e. getitem S' i = Inr e \<and> index e = i))"
proof -
  have d: "derived S" using assms by (rule reached_derived)
  have here: "\<exists>e. getitem T i = Inr e \<and> index e = i"
    if "derived T" "0 \<le> i" "i < len T" for T
    using derived_getitem(1) [OF that(1,2)] that(3) by (simp add: len_def Element_def)
  have after: "len S' = n \<and> (\<exists>e. getitem S' i = Inr e \<and> index e = i)"
    if n: "0 \<le> n" and r: "resize S n = Inr S'" and i: "0 \<le> i" "i < n"
  proof -
    have d': "derived S'" using d r by (rule resize_derived)
    have l: "len S' = n" using n r
      by (auto simp: resize_result len_def del_from_take split: if_splits)
    with here [OF d' i(1)] i(2) show ?thesis by simp
  qed
  from here [OF d] after show ?thesis by blast
qed

theorem index_density_witness:
  "init 0 root4 ''theta'' 3 = Inr theta3 \<and> resize_calls theta3 [1, 3] = Inr theta3 \<and>
   (0::int) \<le> 1 \<and> 1 < len theta3 \<and> (\<exists>e. getitem theta3 1 = Inr e \<and> index e = 1) \<and>
   (0::int) \<le> 2 \<and> resize theta3 2 = Inr theta2 \<and> (1::int) < 2 \<and> len theta2 = 2 \<and>
   (\<exists>e. getitem theta2 1 = Inr e \<and> index e = 1)"
proof -
  have h: "(0::int) \<le> 1" "1 < len theta3" "(0::int) \<le> 2" "(1::int) < 2" by (simp_all add: len_def)
  have r: "resize theta3 2 = Inr theta2" by (simp add: run_defs)
  from index_density [OF init_theta3 calls_theta3, of 1 2 theta2] h r
  have a: "\<exists>e. getitem theta3 1 = Inr e \<and> index e = 1" "len theta2 = 2"
    "\<exists>e. getitem theta2 1 = Inr e \<and> index e = 1"
    by blast+
  show ?thesis by (intro conjI init_theta3 calls_theta3 h r a)
qed

subsection \<open>Resizing\<close>

text \<open>
  C2: shrinking below an index and growing back to the old length gives the element at
  that index the identity it had: for a vector of length \<open>L\<close>, an index \<open>k\<close> with
  \<open>0 \<le> k < L\<close> and any \<open>m \<le> k\<close>, both \<^verbatim>\<open>resize(m)\<close> and \<^verbatim>\<open>resize(L)\<close> return,
  and \<^verbatim>\<open>S[k]\<close> afterwards has the identity captured before.
\<close>

theorem shrink_grow_roundtrip:
  assumes "init self root nm n = Inr S0" and "resize_calls S0 ns = Inr S"
    and "0 \<le> k" and "k < len S" and "m \<le> k"
  shows "\<exists>e S1 S2 e'. getitem S k = Inr e \<and> resize S m = Inr S1 \<and>
           resize S1 (len S) = Inr S2 \<and> getitem S2 k = Inr e' \<and> uuid e' = uuid e"
proof -
  let ?L = "int (length (pv_params S))"
  let ?j = "if m < 0 then max (?L + m) 0 else m"
  let ?S1 = "S\<lparr>pv_params := take (nat ?j) (pv_params S)\<rparr>"
  have d: "derived S" using assms(1,2) by (rule reached_derived)
  have k: "k < ?L" using assms(4) by (simp add: len_def)
  have j: "0 \<le> ?j" "?j < ?L" using assms(3,5) k by auto
  have shrink: "resize S m = Inr ?S1"
    using assms(5) k by (simp add: resize_result del_from_take)
  have grow: "resize ?S1 (len S) = Inr S"
    using derived_regrow [OF d j] by (simp add: len_def)
  obtain e where e: "getitem S k = Inr e"
    using derived_getitem(1) [OF d assms(3) k] by blast
  from e shrink grow show ?thesis by blast
qed

theorem shrink_grow_roundtrip_witness:
  "init 0 root4 ''theta'' 3 = Inr theta3 \<and> resize_calls theta3 [1, 3] = Inr theta3 \<and>
   (0::int) \<le> 2 \<and> 2 < len theta3 \<and> (1::int) \<le> 2 \<and>
   (\<exists>e S1 S2 e'. getitem theta3 2 = Inr e \<and> resize theta3 1 = Inr S1 \<and>
      resize S1 (len theta3) = Inr S2 \<and> getitem S2 2 = Inr e' \<and> uuid e' = uuid e)"
proof -
  have h3: "(0::int) \<le> 2" by simp
  have h4: "2 < len theta3" by (simp add: len_def)
  have h5: "(1::int) \<le> 2" by simp
  from shrink_grow_roundtrip [OF init_theta3 calls_theta3 h3 h4 h5]
  show ?thesis by (intro conjI init_theta3 calls_theta3 h3 h4 h5)
qed

text \<open>
  C6: the postcondition of \<^verbatim>\<open>resize(n)\<close> for \<open>0 \<le> n\<close>: when the call returns, the
  length is \<open>n\<close>; a growing call appended the elements of the indices
  \<open>len, \<dots>, n - 1\<close> in ascending order, each with the identity root plus index; a
  shrinking call kept the first \<open>n\<close> elements as they were; name, root and owner are
  untouched. The call returns exactly when it does not grow or every new identity
  \<open>root + i\<close> is a 128-bit value, that is \<open>root + n \<le> 2 ^ 128\<close>.
\<close>

theorem resize_postcondition:
  assumes "0 \<le> n"
  shows "(resize S n = Inr S' \<longrightarrow>
            len S' = n \<and>
            (len S < n \<longrightarrow> pv_params S' = pv_params S @
               map (\<lambda>i. Element (self_ref S) i (pv_root_uuid S + word_of_int i)) [len S..n - 1]) \<and>
            (n \<le> len S \<longrightarrow> pv_params S' = take (nat n) (pv_params S)) \<and>
            pv_root_uuid S' = pv_root_uuid S \<and> pv_name S' = pv_name S \<and> self_ref S' = self_ref S) \<and>
         ((\<exists>T. resize S n = Inr T) \<longleftrightarrow> n \<le> len S \<or> uint (pv_root_uuid S) + n \<le> 2 ^ 128)"
  using assms
  by (auto simp: resize_result len_def del_from_take elements_of_def split: if_splits)

theorem resize_postcondition_witness:
  "(0::int) \<le> 3 \<and> resize theta1 3 = Inr theta3 \<and> len theta3 = 3 \<and>
   pv_params theta3 = pv_params theta1 @
      map (\<lambda>i. Element (self_ref theta1) i (pv_root_uuid theta1 + word_of_int i)) [len theta1..3 - 1] \<and>
   (0::int) \<le> 1 \<and> resize theta3 1 = Inr theta1 \<and> len theta1 = 1 \<and>
   pv_params theta1 = take (nat 1) (pv_params theta3)"
proof -
  have h: "(0::int) \<le> 3" "(0::int) \<le> 1" by simp_all
  have l: "len theta1 < 3" "1 \<le> len theta3" by (simp_all add: len_def)
  from resize_postcondition [OF h(1), of theta1 theta3] resize_theta1_3 l(1)
  have a: "len theta3 = 3" "pv_params theta3 = pv_params theta1 @
      map (\<lambda>i. Element (self_ref theta1) i (pv_root_uuid theta1 + word_of_int i)) [len theta1..3 - 1]"
    by blast+
  from resize_postcondition [OF h(2), of theta3 theta1] resize_theta3_1 l(2)
  have b: "len theta1 = 1" "pv_params theta1 = take (nat 1) (pv_params theta3)"
    by blast+
  show ?thesis by (intro conjI h a b resize_theta1_3 resize_theta3_1)
qed

text \<open>
  C7: \<^verbatim>\<open>resize(len(S))\<close> returns and leaves the vector as it was: same length, same
  elements, same identities.
\<close>

theorem resize_noop: "resize S (len S) = Inr S"
  by (simp add: resize_def len_def del_from_def)

text \<open>
  C10: \<^verbatim>\<open>resize(n)\<close> with a negative \<open>n\<close> does not raise: the slice deletion
  \<^verbatim>\<open>del self._params[n:]\<close> removes the last \<open>min(|n|, L)\<close> elements, the length becomes
  \<open>max(L + n, 0)\<close> and the remaining prefix is unchanged.
\<close>

theorem resize_negative:
  assumes "n < 0"
  shows "\<exists>S'. resize S n = Inr S' \<and> len S' = max (len S + n) 0 \<and>
           len S - len S' = min (- n) (len S) \<and>
           pv_params S' = take (nat (len S')) (pv_params S) \<and>
           pv_root_uuid S' = pv_root_uuid S \<and> pv_name S' = pv_name S \<and> self_ref S' = self_ref S"
  using assms
  by (auto simp: resize_def len_def del_from_def max_def min_def)

theorem resize_negative_witness:
  "(- 1::int) < 0 \<and>
   (\<exists>S'. resize theta3 (- 1) = Inr S' \<and> len S' = max (len theta3 + (- 1)) 0 \<and>
           len theta3 - len S' = min (- (- 1)) (len theta3) \<and>
           pv_params S' = take (nat (len S')) (pv_params theta3) \<and>
           pv_root_uuid S' = pv_root_uuid theta3 \<and> pv_name S' = pv_name theta3 \<and>
           self_ref S' = self_ref theta3)"
proof -
  have h: "(- 1::int) < 0" by simp
  from resize_negative [OF h, of theta3] show ?thesis by (intro conjI h)
qed

text \<open>
  C4: the claim that a negative length is rejected fails: \<^verbatim>\<open>ParameterVector("theta", -1)\<close>
  is the empty vector, since \<^verbatim>\<open>range(-1)\<close> is empty, and \<^verbatim>\<open>resize(-1)\<close> on a vector
  of three elements returns with two left.
\<close>

theorem negative_length_counterexample:
  "init 0 root4 ''theta'' (- 1) =
     Inr \<lparr>self_ref = 0, pv_name = ''theta'', pv_params = [], pv_root_uuid = root4\<rparr> \<and>
   resize theta3 (- 1) = Inr theta2"
  by (simp add: run_defs)

text \<open>
  C4, as amended: for every negative length the constructor returns the empty vector,
  and \<^verbatim>\<open>resize\<close> with a negative argument returns with the slice
  \<^verbatim>\<open>self._params[n:]\<close> deleted; neither raises.
\<close>

theorem negative_length_accepted:
  assumes "n < 0"
  shows "init self root nm n =
           Inr \<lparr>self_ref = self, pv_name = nm, pv_params = [], pv_root_uuid = root\<rparr> \<and>
         resize S n = Inr (S\<lparr>pv_params := del_from (pv_params S) n\<rparr>)"
  using assms by (simp add: init_def py_range_def resize_def)

theorem negative_length_accepted_witness:
  "(- 1::int) < 0 \<and>
   init 0 root4 ''theta'' (- 1) =
     Inr \<lparr>self_ref = 0, pv_name = ''theta'', pv_params = [], pv_root_uuid = root4\<rparr> \<and>
   resize theta3 (- 1) = Inr (theta3\<lparr>pv_params := del_from (pv_params theta3) (- 1)\<rparr>)"
proof -
  have h: "(- 1::int) < 0" by simp
  from negative_length_accepted [OF h, of 0 root4 "''theta''" theta3]
  show ?thesis by (intro conjI h) simp_all
qed

subsection \<open>Indexing\<close>

text \<open>
  C5: the claim that \<^verbatim>\<open>S[i]\<close> fails exactly outside \<open>[0, len)\<close> fails at \<open>i = -1\<close>:
  on a vector of three elements \<^verbatim>\<open>S[-1]\<close> is the last element.
\<close>

theorem getitem_negative_counterexample:
  "getitem theta3 (- 1) = Inr \<lparr>vector = 0, index = 2, uuid = 0x00000000000040008000000000000007\<rparr>"
  by (simp add: run_defs)

text \<open>
  C5, as amended: \<^verbatim>\<open>S[i]\<close> raises \<^verbatim>\<open>IndexError\<close> exactly when \<open>i\<close> is outside
  \<open>[-len, len)\<close>, and raises nothing else; for \<open>0 \<le> i < len\<close> it is the element at
  position \<open>i\<close>, for \<open>-len \<le> i < 0\<close> the element at position \<open>len + i\<close>. It returns a
  value only: the vector is not changed.
\<close>

theorem getitem_range:
  "(getitem S i = Inl IndexError \<longleftrightarrow> \<not> (- len S \<le> i \<and> i < len S)) \<and>
   getitem S i \<noteq> Inl ValueError \<and>
   (0 \<le> i \<and> i < len S \<longrightarrow> getitem S i = Inr (pv_params S ! nat i)) \<and>
   (- len S \<le> i \<and> i < 0 \<longrightarrow> getitem S i = Inr (pv_params S ! nat (len S + i)))"
  by (auto simp: getitem_def params_def list_getitem_def len_def)

theorem getitem_range_witness:
  "getitem theta3 3 = Inl IndexError \<and> getitem theta3 (- 4) = Inl IndexError \<and>
   getitem theta3 1 = Inr (pv_params theta3 ! nat 1) \<and>
   getitem theta3 (- 1) = Inr (pv_params theta3 ! nat (len theta3 + (- 1)))"
proof -
  have l: "len theta3 = 3" by (simp add: len_def)
  have a: "getitem theta3 3 = Inl IndexError"
    using getitem_range [of theta3 3] l by simp
  have b: "getitem theta3 (- 4) = Inl IndexError"
    using getitem_range [of theta3 "- 4"] l by simp
  have c: "getitem theta3 1 = Inr (pv_params theta3 ! nat 1)"
    using getitem_range [of theta3 1] l by simp
  have d: "getitem theta3 (- 1) = Inr (pv_params theta3 ! nat (len theta3 + (- 1)))"
    using getitem_range [of theta3 "- 1"] l by simp
  show ?thesis by (intro conjI a b c d)
qed

subsection \<open>The identity of an element\<close>

text \<open>
  C9: the claim that the identity is a wrapping sum fails: with the largest root
  \<^verbatim>\<open>uuid4()\<close> can return and the first index whose sum reaches \<open>2 ^ 128\<close>, creating
  the element raises \<^verbatim>\<open>ValueError\<close>; so does growing an empty vector whose root is
  \<open>2 ^ 128 - 1\<close> (a root \<^verbatim>\<open>__setstate__\<close> accepts) to length 2.
\<close>

theorem identity_wrap_counterexample:
  "new_element 0 (uint (0xffffffffffff4fffbfffffffffffffff :: UUID)) 0xb0004000000000000001
     = Inl ValueError \<and>
   resize \<lparr>self_ref = 0, pv_name = ''theta'', pv_params = [],
            pv_root_uuid = 0xffffffffffffffffffffffffffffffff\<rparr> 2 = Inl ValueError"
  by (simp add: run_defs)

text \<open>
  C9, as amended: for an index \<open>i \<ge> 0\<close> the identity is the integer sum
  \<open>root + i\<close>; when it is below \<open>2 ^ 128\<close> the element is created with that identity
  (which then is \<open>(root + i) mod 2 ^ 128\<close>), and otherwise creation raises
  \<^verbatim>\<open>ValueError\<close>: nothing wraps.
\<close>

theorem identity_not_wrapped:
  assumes "0 \<le> i"
  shows "new_element self (uint root) i =
           (if uint root + i < 2 ^ 128 then Inr (Element self i (root + word_of_int i))
            else Inl ValueError) \<and>
         (uint root + i < 2 ^ 128 \<longrightarrow>
            uint (root + word_of_int i) = uint root + i \<and>
            uint root + i = (uint root + i) mod 2 ^ 128)"
proof -
  have "uint (root + word_of_int i) = uint root + i" if "uint root + i < 2 ^ 128"
  proof -
    have "take_bit 128 (uint root + i) = uint root + i"
      using assms that by (simp add: take_bit_int_eq_self)
    moreover have "root + word_of_int i = word_of_int (uint root + i)" by simp
    ultimately show ?thesis by (simp only: uint_word_of_int_eq) simp
  qed
  then show ?thesis using assms
    by (simp add: new_element_def UUID_of_int_def)
qed

theorem identity_not_wrapped_witness:
  "(0::int) \<le> 2 \<and> new_element 0 (uint root4) 2 = Inr (Element 0 2 (root4 + word_of_int 2)) \<and>
   uint (root4 + word_of_int 2) = uint root4 + 2 \<and>
   (0::int) \<le> 1 \<and>
   new_element 0 (uint (0xffffffffffffffffffffffffffffffff :: UUID)) 1 = Inl ValueError"
proof -
  have h: "(0::int) \<le> 2" "(0::int) \<le> 1" by simp_all
  have a: "new_element 0 (uint root4) 2 = Inr (Element 0 2 (root4 + word_of_int 2))"
    "uint (root4 + word_of_int 2) = uint root4 + 2"
    using identity_not_wrapped [OF h(1), of 0 root4] by simp_all
  have b: "new_element 0 (uint (0xffffffffffffffffffffffffffffffff :: UUID)) 1 = Inl ValueError"
    using identity_not_wrapped [OF h(2), of 0 "0xffffffffffffffffffffffffffffffff"] by simp
  show ?thesis by (intro conjI h a b)
qed

subsection \<open>Serialized state\<close>

text \<open>
  C3: the claim that \<^verbatim>\<open>__setstate__\<close> derives identities from the stored root fails:
  a state whose only payload stores another identity than its root yields an element
  with the stored identity.
\<close>

theorem setstate_counterexample:
  "getitem (setstate \<lparr>self_ref = 0, pv_name = [], pv_params = [], pv_root_uuid = 0\<rparr>
              (''theta'', [(0, 0, 0x00000000000040008000000000000009)], root4)) 0
     = Inr \<lparr>vector = 0, index = 0, uuid = 0x00000000000040008000000000000009\<rparr> \<and>
   pv_root_uuid (setstate \<lparr>self_ref = 0, pv_name = [], pv_params = [], pv_root_uuid = 0\<rparr>
              (''theta'', [(0, 0, 0x00000000000040008000000000000009)], root4)) = root4 \<and>
   (0x00000000000040008000000000000009 :: UUID) \<noteq> root4 + word_of_int 0"
  by (simp add: setstate_def element_of_state_def run_defs)

text \<open>
  C3, as amended: \<^verbatim>\<open>__setstate__\<close> takes name and root from the state and builds
  each element from its stored payload, so the element at a position has the index and
  the identity stored there; on the state \<^verbatim>\<open>__getstate__\<close> gives for a vector it
  restores the name, the root and the elements of that vector.
\<close>

theorem setstate_replays_payload:
  "pv_name (setstate S (nm, ps, root)) = nm \<and>
   pv_root_uuid (setstate S (nm, ps, root)) = root \<and>
   pv_params (setstate S (nm, ps, root)) = map element_of_state ps \<and>
   map index (pv_params (setstate S (nm, ps, root))) = map (\<lambda>(v, i, u). i) ps \<and>
   map uuid (pv_params (setstate S (nm, ps, root))) = map (\<lambda>(v, i, u). u) ps \<and>
   setstate S (getstate T) = T\<lparr>self_ref := self_ref S\<rparr>"
proof -
  have "element_of_state \<circ> element_getstate = id"
    by (rule ext) (simp add: element_of_state_def element_getstate_def Element_def)
  then have "map element_of_state (map element_getstate (pv_params T)) = pv_params T"
    by simp
  then show ?thesis
    by (auto simp: setstate_def getstate_def element_of_state_def Element_def)
qed

end
